theory Spec2Isabelle
  imports Main "HOL-Library.Word" "HOL-Library.Sublist"
begin

unbundle bit_operations_syntax

section \<open>The UniValue data model (src/univalue/lib/univalue.cpp)\<close>

text \<open>
  \<open>UniValue\<close> is one class with four fields: the tag \<open>typ\<close>, the text payload \<open>val\<close>
  (used by numbers and strings), the object payload \<open>entries\<close> and the array payload
  \<open>values\<close>. \<open>UniValue::Object\<close> wraps a \<open>std::vector\<close> of (key, value) pairs and
  \<open>UniValue::Array\<close> a \<open>std::vector\<close> of values; both are lists here, in storage order.
  The field names are primed because \<open>typ\<close> and \<open>values\<close> are Isabelle keywords.
\<close>

datatype VType = VNULL | VFALSE | VTRUE | VOBJ | VARR | VNUM | VSTR

datatype UniValue =
  UniValue (typ': VType) (val': string) (entries': "(string \<times> UniValue) list")
    (values': "UniValue list")

type_synonym Object = "(string \<times> UniValue) list"
type_synonym Array = "UniValue list"

text \<open>\<open>const UniValue NullUniValue;\<close> is a default-constructed value: tag null, no payload.\<close>

definition NullUniValue :: UniValue where
  "NullUniValue = UniValue VNULL [] [] []"

text \<open>
  A returned \<open>UniValue&\<close> is modelled by what it refers to: the shared sentinel
  \<open>NullUniValue\<close>, the value of the pair at a position of an object's vector
  (\<open>vector[i].second\<close>), or the element at a position of an array's vector (\<open>vector[i]\<close>).
  The const and the non-const overloads of one accessor have the same body, so one
  function stands for both. A returned \<open>UniValue*\<close> is an \<open>option\<close> of the position,
  \<open>None\<close> being \<open>nullptr\<close>.
\<close>

datatype uvref = RefNullUniValue | RefEntry nat | RefValue nat

text \<open>Reading through a reference obtained from the value \<open>v\<close>.\<close>

definition deref :: "UniValue \<Rightarrow> uvref \<Rightarrow> UniValue" where
  "deref v r =
     (case r of
        RefNullUniValue \<Rightarrow> NullUniValue
      | RefEntry i \<Rightarrow> snd (entries' v ! i)
      | RefValue i \<Rightarrow> values' v ! i)"

text \<open>The two exception classes the file throws, each with its \<open>what()\<close> message.\<close>

datatype exception = out_of_range string | domain_error string

subsection \<open>Decimal text of sizes and integers\<close>

text \<open>
  \<open>std::to_string\<close> on a \<open>size_type\<close> and \<open>snprintf\<close> with \<open>%lld\<close>/\<open>%llu\<close> both write
  base-10 digits, most significant first, with no padding.
\<close>

definition digit_char :: "nat \<Rightarrow> char" where
  "digit_char d = ''0123456789'' ! d"

fun digits10 :: "nat \<Rightarrow> string" where
  "digits10 n = (if n < 10 then [digit_char n] else digits10 (n div 10) @ [digit_char (n mod 10)])"

declare digits10.simps [simp del]

definition to_string :: "nat \<Rightarrow> string" where
  "to_string n = digits10 n"

subsection \<open>UniValue::Object\<close>

text \<open>
  \<open>locate\<close>: the range-for loop over \<open>vector\<close> returns the address of the value of the
  first entry whose key equals \<open>key\<close>, and \<open>nullptr\<close> after the last entry.
\<close>

fun Object_locate :: "Object \<Rightarrow> string \<Rightarrow> nat option" where
  "Object_locate [] key = None"
| "Object_locate (entry # rest) key =
     (if fst entry = key then Some 0 else map_option Suc (Object_locate rest key))"

definition Object_subscript_key :: "Object \<Rightarrow> string \<Rightarrow> uvref" where
  "Object_subscript_key vector key =
     (case Object_locate vector key of
        Some found \<Rightarrow> RefEntry found
      | None \<Rightarrow> RefNullUniValue)"

definition Object_subscript_index :: "Object \<Rightarrow> nat \<Rightarrow> uvref" where
  "Object_subscript_index vector index =
     (if index < length vector then RefEntry index else RefNullUniValue)"

definition Object_at_key :: "Object \<Rightarrow> string \<Rightarrow> exception + uvref" where
  "Object_at_key vector key =
     (case Object_locate vector key of
        Some found \<Rightarrow> Inr (RefEntry found)
      | None \<Rightarrow> Inl (out_of_range (''Key not found in JSON object: '' @ key)))"

definition Object_at_index :: "Object \<Rightarrow> nat \<Rightarrow> exception + uvref" where
  "Object_at_index vector index =
     (if index < length vector then Inr (RefEntry index)
      else Inl (out_of_range (''Index '' @ to_string index @
                  '' out of range in JSON object of length '' @ to_string (length vector))))"

definition Object_front :: "Object \<Rightarrow> uvref" where
  "Object_front vector = (if vector \<noteq> [] then RefEntry 0 else RefNullUniValue)"

definition Object_back :: "Object \<Rightarrow> uvref" where
  "Object_back vector =
     (if vector \<noteq> [] then RefEntry (length vector - 1) else RefNullUniValue)"

subsection \<open>UniValue::Array\<close>

definition Array_subscript_index :: "Array \<Rightarrow> nat \<Rightarrow> uvref" where
  "Array_subscript_index vector index =
     (if index < length vector then RefValue index else RefNullUniValue)"

definition Array_at_index :: "Array \<Rightarrow> nat \<Rightarrow> exception + uvref" where
  "Array_at_index vector index =
     (if index < length vector then Inr (RefValue index)
      else Inl (out_of_range (''Index '' @ to_string index @
                  '' out of range in JSON array of length '' @ to_string (length vector))))"

definition Array_front :: "Array \<Rightarrow> uvref" where
  "Array_front vector = (if vector \<noteq> [] then RefValue 0 else RefNullUniValue)"

definition Array_back :: "Array \<Rightarrow> uvref" where
  "Array_back vector =
     (if vector \<noteq> [] then RefValue (length vector - 1) else RefNullUniValue)"

subsection \<open>Setters\<close>

text \<open>
  A member function that mutates \<open>*this\<close> takes the value and returns the updated one.
  Each assignment to a field is one of the four updates below. The setters are modelled
  for an argument that is not a reference into \<open>*this\<close>.
\<close>

definition set_typ :: "VType \<Rightarrow> UniValue \<Rightarrow> UniValue" where
  "set_typ t v = UniValue t (val' v) (entries' v) (values' v)"

definition set_val :: "string \<Rightarrow> UniValue \<Rightarrow> UniValue" where
  "set_val s v = UniValue (typ' v) s (entries' v) (values' v)"

definition set_entries :: "Object \<Rightarrow> UniValue \<Rightarrow> UniValue" where
  "set_entries es v = UniValue (typ' v) (val' v) es (values' v)"

definition set_values :: "Array \<Rightarrow> UniValue \<Rightarrow> UniValue" where
  "set_values vs v = UniValue (typ' v) (val' v) (entries' v) vs"

definition setNull :: "UniValue \<Rightarrow> UniValue" where
  "setNull v =
     (let v = set_typ VNULL v;
          v = set_val [] v;
          v = set_entries [] v
      in set_values [] v)"

definition setBool :: "bool \<Rightarrow> UniValue \<Rightarrow> UniValue" where
  "setBool val_arg v = (let v = setNull v in set_typ (if val_arg then VTRUE else VFALSE) v)"

definition setObject :: "UniValue \<Rightarrow> UniValue" where
  "setObject v = (let v = setNull v in set_typ VOBJ v)"

text \<open>\<open>setObject(const Object&)\<close> and \<open>setObject(Object&&)\<close> store the same container.\<close>

definition setObject_from :: "Object \<Rightarrow> UniValue \<Rightarrow> UniValue" where
  "setObject_from object v = (let v = setObject v in set_entries object v)"

definition setArray :: "UniValue \<Rightarrow> UniValue" where
  "setArray v = (let v = setNull v in set_typ VARR v)"

definition setArray_from :: "Array \<Rightarrow> UniValue \<Rightarrow> UniValue" where
  "setArray_from array v = (let v = setArray v in set_values array v)"

text \<open>
  \<open>getJsonToken\<close> and the enumeration \<open>jtokentype\<close> are declared outside this file.
  \<open>validNumStr\<close> passes the whole string to the tokenizer, drops the two output
  parameters and only compares the returned token type with \<open>JTOK_NUMBER\<close>; so the
  tokenizer is a parameter, a function from the text to a token type, and every other
  token type is \<open>JTOK_OTHER\<close>. The tokenizer that the spec describes is
  \<open>spec_getJsonToken\<close>, defined with the notions of the specification.
\<close>

datatype jtokentype = JTOK_NUMBER | JTOK_OTHER

definition validNumStr :: "(string \<Rightarrow> jtokentype) \<Rightarrow> string \<Rightarrow> bool" where
  "validNumStr getJsonToken s = (let tt = getJsonToken s in tt = JTOK_NUMBER)"

definition setNumStr :: "(string \<Rightarrow> jtokentype) \<Rightarrow> string \<Rightarrow> UniValue \<Rightarrow> UniValue" where
  "setNumStr getJsonToken val_arg v =
     (if \<not> validNumStr getJsonToken val_arg then v
      else (let v = setNull v;
                v = set_typ VNUM v
            in set_val val_arg v))"

text \<open>
  \<open>snprintf\<close> with \<open>"%" PRId64\<close> writes a \<open>-\<close> and the digits of the magnitude for a
  negative argument and the digits alone otherwise; with \<open>"%" PRIu64\<close> the digits. It
  stores at most \<open>bufSize - 1\<close> characters and returns the length of the whole text.
\<close>

definition format_PRId64 :: "int \<Rightarrow> string" where
  "format_PRId64 x = (if x < 0 then CHR ''-'' # digits10 (nat (- x)) else digits10 (nat x))"

definition format_PRIu64 :: "nat \<Rightarrow> string" where
  "format_PRIu64 n = digits10 n"

definition snprintf :: "nat \<Rightarrow> string \<Rightarrow> string \<times> int" where
  "snprintf size_arg text = (take (size_arg - 1) text, int (length text))"

definition bufSize :: nat where
  "bufSize = 21"

text \<open>
  The template \<open>setInt64<Integer>\<close> is instantiated with \<open>int64_t\<close> and \<open>uint64_t\<close>;
  \<open>is_signed\<close> is \<open>std::is_signed<Integer>::value\<close> and the 64-bit word is read
  accordingly.
\<close>

definition setInt64 :: "bool \<Rightarrow> 64 word \<Rightarrow> UniValue \<Rightarrow> UniValue" where
  "setInt64 is_signed val_arg v =
     (let (buf, n) = snprintf bufSize
                       (if is_signed then format_PRId64 (sint val_arg)
                        else format_PRIu64 (unat val_arg))
      in if n \<le> 0 \<or> n \<ge> int bufSize then v
         else (let v = setNull v;
                   v = set_typ VNUM v
               in set_val (take (nat n) buf) v))"

text \<open>
  The eight \<open>setInt\<close> overloads convert their argument to \<open>int64_t\<close> (sign extension)
  or \<open>uint64_t\<close> (zero extension). The widths are those of an LP64 platform: short 16,
  int 32, long and long long 64 bits.
\<close>

definition setInt_short :: "16 word \<Rightarrow> UniValue \<Rightarrow> UniValue" where
  "setInt_short val_arg v = setInt64 True (scast val_arg) v"

definition setInt_int :: "32 word \<Rightarrow> UniValue \<Rightarrow> UniValue" where
  "setInt_int val_arg v = setInt64 True (scast val_arg) v"

definition setInt_long :: "64 word \<Rightarrow> UniValue \<Rightarrow> UniValue" where
  "setInt_long val_arg v = setInt64 True (scast val_arg) v"

definition setInt_long_long :: "64 word \<Rightarrow> UniValue \<Rightarrow> UniValue" where
  "setInt_long_long val_arg v = setInt64 True (scast val_arg) v"

definition setInt_unsigned_short :: "16 word \<Rightarrow> UniValue \<Rightarrow> UniValue" where
  "setInt_unsigned_short val_arg v = setInt64 False (ucast val_arg) v"

definition setInt_unsigned :: "32 word \<Rightarrow> UniValue \<Rightarrow> UniValue" where
  "setInt_unsigned val_arg v = setInt64 False (ucast val_arg) v"

definition setInt_unsigned_long :: "64 word \<Rightarrow> UniValue \<Rightarrow> UniValue" where
  "setInt_unsigned_long val_arg v = setInt64 False (ucast val_arg) v"

definition setInt_unsigned_long_long :: "64 word \<Rightarrow> UniValue \<Rightarrow> UniValue" where
  "setInt_unsigned_long_long val_arg v = setInt64 False (ucast val_arg) v"

text \<open>
  A \<open>double\<close> is not a number, an infinity, or a finite value with a sign, a mantissa
  and a binary exponent. \<open>std::isfinite\<close> holds of the last kind only. What
  \<open>oss << std::setprecision(16) << val_\<close> writes in the classic locale is the
  parameter \<open>oss_str\<close>.
\<close>

datatype double = NaN | PosInf | NegInf | Finite bool nat int

fun isfinite :: "double \<Rightarrow> bool" where
  "isfinite (Finite sign mantissa exponent) = True"
| "isfinite NaN = False"
| "isfinite PosInf = False"
| "isfinite NegInf = False"

definition setFloat :: "(double \<Rightarrow> string) \<Rightarrow> double \<Rightarrow> UniValue \<Rightarrow> UniValue" where
  "setFloat oss_str val_arg v =
     (if \<not> isfinite val_arg then v
      else (let v = setNull v;
                v = set_typ VNUM v
            in set_val (oss_str val_arg) v))"

definition setStr :: "string \<Rightarrow> UniValue \<Rightarrow> UniValue" where
  "setStr val_arg v =
     (let v = setNull v;
          v = set_typ VSTR v
      in set_val val_arg v)"

subsection \<open>Type names\<close>

fun uvTypeName :: "VType \<Rightarrow> string" where
  "uvTypeName VNULL = ''null''"
| "uvTypeName VFALSE = ''false''"
| "uvTypeName VTRUE = ''true''"
| "uvTypeName VOBJ = ''object''"
| "uvTypeName VARR = ''array''"
| "uvTypeName VNUM = ''number''"
| "uvTypeName VSTR = ''string''"

text \<open>
  Modelled from the spec: the numeric values of the \<open>VType\<close> enumerators are declared
  in univalue.h, which is not among the sources. The spec calls the \<open>int\<close> argument of
  \<open>uvTypeName\<close> a bitmask of tags with the canonical order Null, False, True, Object,
  Array, Number, String: one bit for each tag, in that order.
\<close>

fun VType_bits :: "VType \<Rightarrow> 32 word" where
  "VType_bits VNULL = push_bit 0 1"
| "VType_bits VFALSE = push_bit 1 1"
| "VType_bits VTRUE = push_bit 2 1"
| "VType_bits VOBJ = push_bit 3 1"
| "VType_bits VARR = push_bit 4 1"
| "VType_bits VNUM = push_bit 5 1"
| "VType_bits VSTR = push_bit 6 1"

text \<open>The lambda of \<open>uvTypeName(int)\<close>, with the captured \<open>t\<close> and \<open>result\<close> as arguments.\<close>

definition appendTypeNameIfTypeIncludes :: "32 word \<Rightarrow> VType \<Rightarrow> string \<Rightarrow> string" where
  "appendTypeNameIfTypeIncludes t ty result =
     (if t AND VType_bits ty \<noteq> 0
      then (let result = (if result \<noteq> [] then result @ ''/'' else result)
            in result @ uvTypeName ty)
      else result)"

definition uvTypeName_int :: "32 word \<Rightarrow> string" where
  "uvTypeName_int t =
     (let result = [];
          result = appendTypeNameIfTypeIncludes t VNULL result;
          result = appendTypeNameIfTypeIncludes t VFALSE result;
          result = appendTypeNameIfTypeIncludes t VTRUE result;
          result = appendTypeNameIfTypeIncludes t VOBJ result;
          result = appendTypeNameIfTypeIncludes t VARR result;
          result = appendTypeNameIfTypeIncludes t VNUM result;
          result = appendTypeNameIfTypeIncludes t VSTR result
      in result)"

subsection \<open>Accessors of UniValue\<close>

definition UniValue_locate :: "UniValue \<Rightarrow> string \<Rightarrow> nat option" where
  "UniValue_locate v key = Object_locate (entries' v) key"

definition UniValue_subscript_key :: "UniValue \<Rightarrow> string \<Rightarrow> uvref" where
  "UniValue_subscript_key v key =
     (case UniValue_locate v key of
        Some found \<Rightarrow> RefEntry found
      | None \<Rightarrow> RefNullUniValue)"

definition UniValue_subscript_index :: "UniValue \<Rightarrow> nat \<Rightarrow> uvref" where
  "UniValue_subscript_index v index =
     (case typ' v of
        VOBJ \<Rightarrow> Object_subscript_index (entries' v) index
      | VARR \<Rightarrow> Array_subscript_index (values' v) index
      | _ \<Rightarrow> RefNullUniValue)"

definition UniValue_front :: "UniValue \<Rightarrow> uvref" where
  "UniValue_front v =
     (case typ' v of
        VOBJ \<Rightarrow> Object_front (entries' v)
      | VARR \<Rightarrow> Array_front (values' v)
      | _ \<Rightarrow> RefNullUniValue)"

definition UniValue_back :: "UniValue \<Rightarrow> uvref" where
  "UniValue_back v =
     (case typ' v of
        VOBJ \<Rightarrow> Object_back (entries' v)
      | VARR \<Rightarrow> Array_back (values' v)
      | _ \<Rightarrow> RefNullUniValue)"

definition UniValue_at_key :: "UniValue \<Rightarrow> string \<Rightarrow> exception + uvref" where
  "UniValue_at_key v key =
     (if typ' v = VOBJ then Object_at_key (entries' v) key
      else Inl (domain_error (''Cannot look up keys in JSON '' @ uvTypeName (typ' v) @
                  '', expected object with key: '' @ key)))"

definition UniValue_at_index :: "UniValue \<Rightarrow> nat \<Rightarrow> exception + uvref" where
  "UniValue_at_index v index =
     (case typ' v of
        VOBJ \<Rightarrow> Object_at_index (entries' v) index
      | VARR \<Rightarrow> Array_at_index (values' v) index
      | _ \<Rightarrow> Inl (domain_error (''Cannot look up indices in JSON '' @ uvTypeName (typ' v) @
                    '', expected array or object larger than '' @ to_string index @
                    '' elements'')))"

subsection \<open>Equality\<close>

text \<open>
  Modelled from the spec: \<open>Object::operator==\<close> and \<open>Array::operator==\<close> are defined in
  univalue.h, which is not among the sources. By the spec two object containers are
  equal iff they hold the same sequence of pairs in the same order with equal keys and
  equal values, and two arrays iff their elements are equal one by one in order; the
  values are compared with \<open>UniValue::operator==\<close>, whose body is the first equation.
\<close>

function UniValue_eq :: "UniValue \<Rightarrow> UniValue \<Rightarrow> bool"
  and Object_eq :: "Object \<Rightarrow> Object \<Rightarrow> bool"
  and Array_eq :: "Array \<Rightarrow> Array \<Rightarrow> bool"
where
  "UniValue_eq (UniValue t s es vs) other =
     (if t \<noteq> typ' other then False
      else (case t of
              VOBJ \<Rightarrow> Object_eq es (entries' other)
            | VARR \<Rightarrow> Array_eq vs (values' other)
            | VNUM \<Rightarrow> s = val' other
            | VSTR \<Rightarrow> s = val' other
            | VNULL \<Rightarrow> True
            | VFALSE \<Rightarrow> True
            | VTRUE \<Rightarrow> True))"
| "Object_eq [] [] = True"
| "Object_eq [] (q # qs) = False"
| "Object_eq (p # ps) [] = False"
| "Object_eq (p # ps) (q # qs) =
     (fst p = fst q \<and> UniValue_eq (snd p) (snd q) \<and> Object_eq ps qs)"
| "Array_eq [] [] = True"
| "Array_eq [] (y # ys) = False"
| "Array_eq (x # xs) [] = False"
| "Array_eq (x # xs) (y # ys) = (UniValue_eq x y \<and> Array_eq xs ys)"
  by pat_completeness auto
termination
  by (relation "measure (\<lambda>a. case a of
          Inl (v, w) \<Rightarrow> size v
        | Inr (Inl (ps, qs)) \<Rightarrow> size_list (\<lambda>p. Suc (size (snd p))) ps
        | Inr (Inr (xs, ys)) \<Rightarrow> size_list size xs)")
     (auto simp: size_prod_simp)

subsection \<open>The class invariant\<close>

text \<open>
  The container the tag does not select is empty: the object payload unless the tag is
  \<open>VOBJ\<close>, the array payload unless it is \<open>VARR\<close>.
\<close>

definition consistent :: "UniValue \<Rightarrow> bool" where
  "consistent v =
     ((typ' v \<noteq> VOBJ \<longrightarrow> entries' v = []) \<and>
      (typ' v \<noteq> VARR \<longrightarrow> values' v = []))"

section \<open>Notions of the specification\<close>

text \<open>
  The definitions of this section are not translated from the code. They say what the
  specification's words mean, so that the code can be compared with them.
\<close>

subsection \<open>Canonical base-10 text\<close>

text \<open>
  Reading a text as an integer: an optional leading \<open>-\<close>, then digits, most significant
  first. A text is the canonical base-10 text of \<open>x\<close> when it starts with \<open>-\<close> exactly
  when \<open>x\<close> is negative, the rest is a non-empty run of digits with no leading zero
  except for the single digit \<open>0\<close>, and reading it back gives \<open>x\<close>.
\<close>

definition is_digit :: "char \<Rightarrow> bool" where
  "is_digit c = (c \<in> set ''0123456789'')"

definition digit_value :: "char \<Rightarrow> nat" where
  "digit_value c = of_char c - 48"

definition read_nat :: "string \<Rightarrow> nat" where
  "read_nat ds = foldl (\<lambda>acc c. 10 * acc + digit_value c) 0 ds"

definition read_int :: "string \<Rightarrow> int" where
  "read_int text =
     (if text \<noteq> [] \<and> hd text = CHR ''-'' then - int (read_nat (tl text))
      else int (read_nat text))"

definition canonical_base10 :: "string \<Rightarrow> int \<Rightarrow> bool" where
  "canonical_base10 text x =
     (let ds = (if x < 0 then tl text else text)
      in text \<noteq> [] \<and> (hd text = CHR ''-'') = (x < 0) \<and>
         ds \<noteq> [] \<and> (\<forall>c \<in> set ds. is_digit c) \<and>
         (hd ds = CHR ''0'' \<longrightarrow> ds = ''0'') \<and>
         read_int text = x)"

subsection \<open>JSON number tokens\<close>

text \<open>
  A text is a JSON number when it is, from its first to its last character: an optional
  \<open>-\<close>; an integer part, either the single digit \<open>0\<close> or digits that do not start with
  \<open>0\<close>; optionally a \<open>.\<close> and at least one digit; optionally \<open>e\<close> or \<open>E\<close>, an optional
  sign and at least one digit. Nothing may come before or after it.
\<close>

definition skip_digits :: "string \<Rightarrow> string" where
  "skip_digits s = dropWhile is_digit s"

definition json_int_part :: "string \<Rightarrow> bool" where
  "json_int_part ds = (ds \<noteq> [] \<and> (hd ds \<noteq> CHR ''0'' \<or> ds = ''0''))"

definition is_json_number :: "string \<Rightarrow> bool" where
  "is_json_number text =
     (let s = (if text \<noteq> [] \<and> hd text = CHR ''-'' then tl text else text);
          int_ok = json_int_part (takeWhile is_digit s);
          s = skip_digits s;
          has_frac = (s \<noteq> [] \<and> hd s = CHR ''.'');
          frac_ok = (\<not> has_frac \<or> takeWhile is_digit (tl s) \<noteq> []);
          s = (if has_frac then skip_digits (tl s) else s);
          has_exp = (s \<noteq> [] \<and> (hd s = CHR ''e'' \<or> hd s = CHR ''E''));
          e = (if has_exp \<and> tl s \<noteq> [] \<and> (hd (tl s) = CHR ''+'' \<or> hd (tl s) = CHR ''-'')
               then tl (tl s) else tl s);
          exp_ok = (\<not> has_exp \<or> takeWhile is_digit e \<noteq> []);
          s = (if has_exp then skip_digits e else s)
      in int_ok \<and> frac_ok \<and> exp_ok \<and> s = [])"

text \<open>
  Modelled from the spec: \<open>getJsonToken\<close>, the number tokenizer that \<open>validNumStr\<close>
  calls, is defined in another file of the library, which is not among the sources.
  By the spec it is given a text span, classifies it, and reports whether the span forms
  one complete, valid JSON number token; the two output parameters (\<open>tokenVal\<close> and
  \<open>consumed\<close>) are never read by \<open>validNumStr\<close> and are left out.
\<close>

definition spec_getJsonToken :: "string \<Rightarrow> jtokentype" where
  "spec_getJsonToken text = (if is_json_number text then JTOK_NUMBER else JTOK_OTHER)"

subsection \<open>Slash-joined names in the canonical order of the tags\<close>

fun slash_join :: "string list \<Rightarrow> string" where
  "slash_join [] = []"
| "slash_join [name] = name"
| "slash_join (name # more # names) = name @ ''/'' @ slash_join (more # names)"

definition canonical_order :: "VType list" where
  "canonical_order = [VNULL, VFALSE, VTRUE, VOBJ, VARR, VNUM, VSTR]"

subsection \<open>The active container and references into it\<close>

text \<open>The number of elements of the container the tag selects.\<close>

definition active_size :: "UniValue \<Rightarrow> nat" where
  "active_size v =
     (case typ' v of VOBJ \<Rightarrow> length (entries' v) | VARR \<Rightarrow> length (values' v) | _ \<Rightarrow> 0)"

text \<open>A reference obtained from \<open>v\<close> is valid when it is the sentinel or a position that exists.\<close>

definition valid_ref :: "UniValue \<Rightarrow> uvref \<Rightarrow> bool" where
  "valid_ref v r =
     (case r of
        RefNullUniValue \<Rightarrow> True
      | RefEntry i \<Rightarrow> i < length (entries' v)
      | RefValue i \<Rightarrow> i < length (values' v))"

section \<open>Lookup by key in an object\<close>

lemma Object_locate_None: "(Object_locate vector key = None) = (key \<notin> fst ` set vector)"
  by (induction vector) auto

lemma Object_locate_Some:
  "Object_locate vector key = Some i \<Longrightarrow>
     i < length vector \<and> fst (vector ! i) = key \<and> (\<forall>j<i. fst (vector ! j) \<noteq> key)"
proof (induction vector arbitrary: i)
  case Nil
  then show ?case by simp
next
  case (Cons entry rest)
  show ?case
  proof (cases "fst entry = key")
    case True
    with Cons.prems show ?thesis by simp
  next
    case False
    with Cons.prems obtain i' where i': "Object_locate rest key = Some i'" "i = Suc i'"
      by auto
    from Cons.IH [OF i'(1)] False i'(2) show ?thesis
      by (auto simp: nth_Cons split: nat.splits)
  qed
qed

lemma Object_locate_map_of:
  "map_option (\<lambda>i. snd (vector ! i)) (Object_locate vector key) = map_of vector key"
  by (induction vector) (auto simp: option.map_comp comp_def)

text \<open>
  C1. For every object and key, \<open>locate\<close> and \<open>operator[]\<close> by key find the first pair,
  in storage (insertion) order, whose key equals the argument: the position returned
  holds the key and no earlier position does, so an earlier duplicate shadows a later
  one. When no pair has the key, \<open>locate\<close> returns the null pointer and \<open>operator[]\<close> the
  shared \<open>NullUniValue\<close>.
\<close>

theorem Object_lookup_first_match:
  "(key \<notin> fst ` set vector \<longrightarrow>
      Object_locate vector key = None \<and>
      Object_subscript_key vector key = RefNullUniValue) \<and>
   (key \<in> fst ` set vector \<longrightarrow>
      (\<exists>i. Object_locate vector key = Some i \<and>
           Object_subscript_key vector key = RefEntry i \<and>
           i < length vector \<and> fst (vector ! i) = key \<and>
           (\<forall>j<i. fst (vector ! j) \<noteq> key) \<and>
           map_of vector key = Some (snd (vector ! i))))"
proof (intro conjI impI)
  assume "key \<notin> fst ` set vector"
  then have "Object_locate vector key = None"
    by (simp add: Object_locate_None)
  then show "Object_locate vector key = None" "Object_subscript_key vector key = RefNullUniValue"
    by (simp_all add: Object_subscript_key_def)
next
  assume "key \<in> fst ` set vector"
  then have "Object_locate vector key \<noteq> None"
    by (simp add: Object_locate_None)
  then obtain i where i: "Object_locate vector key = Some i"
    by auto
  from Object_locate_map_of [of vector key] i
  have "map_of vector key = Some (snd (vector ! i))"
    by simp
  with i Object_locate_Some [OF i]
  show "\<exists>i. Object_locate vector key = Some i \<and>
           Object_subscript_key vector key = RefEntry i \<and>
           i < length vector \<and> fst (vector ! i) = key \<and>
           (\<forall>j<i. fst (vector ! j) \<noteq> key) \<and>
           map_of vector key = Some (snd (vector ! i))"
    by (simp add: Object_subscript_key_def)
qed

theorem Object_lookup_first_match_witness:
  "Object_locate [(''a'', UniValue VNUM ''1'' [] []), (''b'', UniValue VNUM ''2'' [] []),
                  (''a'', UniValue VNUM ''3'' [] [])] ''a'' = Some 0 \<and>
   Object_subscript_key [(''a'', UniValue VNUM ''1'' [] []), (''b'', UniValue VNUM ''2'' [] []),
                  (''a'', UniValue VNUM ''3'' [] [])] ''a'' = RefEntry 0 \<and>
   map_of [(''a'', UniValue VNUM ''1'' [] []), (''b'', UniValue VNUM ''2'' [] []),
                  (''a'', UniValue VNUM ''3'' [] [])] ''a'' = Some (UniValue VNUM ''1'' [] []) \<and>
   Object_locate [(''a'', UniValue VNUM ''1'' [] []), (''b'', UniValue VNUM ''2'' [] []),
                  (''a'', UniValue VNUM ''3'' [] [])] ''missing'' = None \<and>
   Object_subscript_key [(''a'', UniValue VNUM ''1'' [] []), (''b'', UniValue VNUM ''2'' [] []),
                  (''a'', UniValue VNUM ''3'' [] [])] ''missing'' = RefNullUniValue"
  using Object_lookup_first_match [of "''a''" "[(''a'', UniValue VNUM ''1'' [] []),
          (''b'', UniValue VNUM ''2'' [] []), (''a'', UniValue VNUM ''3'' [] [])]"]
    Object_lookup_first_match [of "''missing''" "[(''a'', UniValue VNUM ''1'' [] []),
          (''b'', UniValue VNUM ''2'' [] []), (''a'', UniValue VNUM ''3'' [] [])]"]
  by (simp add: Object_subscript_key_def)

section \<open>Integers as canonical base-10 text\<close>

lemma setNull_eq: "setNull v = UniValue VNULL [] [] []"
  by (simp add: setNull_def set_typ_def set_val_def set_entries_def set_values_def)

lemma digit_cases:
  "d < (10::nat) \<Longrightarrow> d = 0 \<or> d = 1 \<or> d = 2 \<or> d = 3 \<or> d = 4 \<or> d = 5 \<or> d = 6 \<or> d = 7 \<or> d = 8 \<or> d = 9"
  by arith

lemma digit_char_props:
  assumes "d < 10"
  shows "digit_value (digit_char d) = d" "is_digit (digit_char d)"
    "(digit_char d = CHR ''0'') = (d = 0)" "digit_char d \<noteq> CHR ''-''"
  using digit_cases [OF assms]
  by (auto simp: digit_char_def digit_value_def is_digit_def)

lemma digits10_nonempty: "digits10 n \<noteq> []"
  by (subst digits10.simps) simp

lemma read_nat_digits10: "read_nat (digits10 n) = n"
proof (induction n rule: digits10.induct)
  case (1 n)
  show ?case
  proof (cases "n < 10")
    case True
    then show ?thesis
      by (subst digits10.simps) (simp add: read_nat_def digit_char_props)
  next
    case False
    with "1.IH" have "read_nat (digits10 (n div 10)) = n div 10" by simp
    with False show ?thesis
      by (subst digits10.simps) (simp add: read_nat_def digit_char_props)
  qed
qed

lemma digits10_all_digits: "c \<in> set (digits10 n) \<Longrightarrow> is_digit c"
proof (induction n rule: digits10.induct)
  case (1 n)
  show ?case
  proof (cases "n < 10")
    case True
    with "1.prems" show ?thesis
      by (subst (asm) digits10.simps) (simp add: digit_char_props)
  next
    case False
    with "1.prems" "1.IH" show ?thesis
      by (subst (asm) digits10.simps) (auto simp: digit_char_props)
  qed
qed

lemma digits10_hd_zero: "hd (digits10 n) = CHR ''0'' \<Longrightarrow> n = 0"
proof (induction n rule: digits10.induct)
  case (1 n)
  show ?case
  proof (cases "n < 10")
    case True
    with "1.prems" show ?thesis
      by (subst (asm) digits10.simps) (simp add: digit_char_props)
  next
    case False
    with "1.prems" have "hd (digits10 (n div 10)) = CHR ''0''"
      by (subst (asm) digits10.simps) (simp add: digits10_nonempty)
    with "1.IH" False have "n div 10 = 0" by simp
    with False show ?thesis by simp
  qed
qed

lemma digits10_zero: "digits10 0 = ''0''"
  by (subst digits10.simps) (simp add: digit_char_def)

lemma digits10_hd_not_minus: "hd (digits10 n) \<noteq> CHR ''-''"
proof -
  have "hd (digits10 n) \<in> set (digits10 n)"
    by (simp add: digits10_nonempty)
  then have "is_digit (hd (digits10 n))"
    by (rule digits10_all_digits)
  then show ?thesis
    by (auto simp: is_digit_def)
qed

lemma canonical_format_PRId64: "canonical_base10 (format_PRId64 x) x"
proof (cases "x < 0")
  case True
  let ?ds = "digits10 (nat (- x))"
  have fmt: "format_PRId64 x = CHR ''-'' # ?ds"
    using True by (simp add: format_PRId64_def)
  have "hd ?ds = CHR ''0'' \<longrightarrow> ?ds = ''0''"
    using digits10_hd_zero [of "nat (- x)"] True by auto
  moreover have "read_int (CHR ''-'' # ?ds) = x"
    using True by (simp add: read_int_def read_nat_digits10)
  moreover have "\<forall>c \<in> set ?ds. is_digit c"
    by (simp add: digits10_all_digits)
  ultimately show ?thesis
    using True by (simp add: canonical_base10_def fmt digits10_nonempty)
next
  case False
  let ?ds = "digits10 (nat x)"
  have fmt: "format_PRId64 x = ?ds"
    using False by (simp add: format_PRId64_def)
  have "hd ?ds = CHR ''0'' \<longrightarrow> ?ds = ''0''"
    using digits10_hd_zero [of "nat x"] digits10_zero by auto
  moreover have "read_int ?ds = x"
    using False by (simp add: read_int_def read_nat_digits10 digits10_hd_not_minus)
  moreover have "\<forall>c \<in> set ?ds. is_digit c"
    by (simp add: digits10_all_digits)
  ultimately show ?thesis
    using False by (simp add: canonical_base10_def fmt digits10_nonempty digits10_hd_not_minus)
qed

text \<open>The canonical text of an integer is unique: it is the text \<open>%lld\<close> writes.\<close>

lemma is_digit_value:
  assumes "is_digit c"
  shows "digit_value c < 10" "digit_char (digit_value c) = c"
    "(digit_value c = 0) = (c = CHR ''0'')"
  using assms by (auto simp: is_digit_def digit_value_def digit_char_def)

lemma read_nat_snoc: "read_nat (ds @ [c]) = 10 * read_nat ds + digit_value c"
  by (simp add: read_nat_def)

lemma read_nat_pos:
  "ds \<noteq> [] \<Longrightarrow> \<forall>c \<in> set ds. is_digit c \<Longrightarrow> hd ds \<noteq> CHR ''0'' \<Longrightarrow> 0 < read_nat ds"
proof (induction ds rule: rev_induct)
  case Nil
  then show ?case by simp
next
  case (snoc c ds)
  show ?case
  proof (cases "ds = []")
    case True
    from snoc.prems True have "is_digit c" "c \<noteq> CHR ''0''" by simp_all
    then have "digit_value c \<noteq> 0"
      by (simp add: is_digit_value)
    with True show ?thesis
      by (simp add: read_nat_def)
  next
    case False
    with snoc have "0 < read_nat ds" by simp
    then show ?thesis by (simp add: read_nat_snoc)
  qed
qed

lemma digits10_read_nat:
  "ds \<noteq> [] \<Longrightarrow> \<forall>c \<in> set ds. is_digit c \<Longrightarrow> (hd ds = CHR ''0'' \<longrightarrow> ds = ''0'') \<Longrightarrow>
     digits10 (read_nat ds) = ds"
proof (induction ds rule: rev_induct)
  case Nil
  then show ?case by simp
next
  case (snoc c ds)
  from snoc.prems have c: "is_digit c" by simp
  show ?case
  proof (cases "ds = []")
    case True
    with c show ?thesis
      by (subst digits10.simps) (simp add: read_nat_def is_digit_value)
  next
    case False
    with snoc.prems have hd: "hd ds \<noteq> CHR ''0''"
      by (cases ds) auto
    with snoc False have IH: "digits10 (read_nat ds) = ds" by simp
    from read_nat_pos [OF False _ hd] snoc.prems have "0 < read_nat ds" by simp
    with c IH show ?thesis
      by (subst digits10.simps) (simp add: read_nat_snoc is_digit_value)
  qed
qed

lemma canonical_base10_unique:
  assumes "canonical_base10 s x"
  shows "s = format_PRId64 x"
proof (cases "x < 0")
  case True
  with assms have s: "s = CHR ''-'' # tl s" and ds: "tl s \<noteq> []" "\<forall>c \<in> set (tl s). is_digit c"
      "hd (tl s) = CHR ''0'' \<longrightarrow> tl s = ''0''" and r: "read_int s = x"
    by (cases s; simp add: canonical_base10_def)+
  from s have "s \<noteq> []" "hd s = CHR ''-''"
    by (metis list.distinct(1), metis list.sel(1))
  with r have "x = - int (read_nat (tl s))"
    by (simp add: read_int_def)
  then have "nat (- x) = read_nat (tl s)" by simp
  with digits10_read_nat [OF ds] have "digits10 (nat (- x)) = tl s" by simp
  with True s show ?thesis
    by (simp add: format_PRId64_def)
next
  case False
  with assms have ds: "s \<noteq> []" "\<forall>c \<in> set s. is_digit c" "hd s = CHR ''0'' \<longrightarrow> s = ''0''"
    and m: "hd s \<noteq> CHR ''-''" and r: "read_int s = x"
    by (simp_all add: canonical_base10_def)
  from r m have "x = int (read_nat s)"
    by (simp add: read_int_def)
  then have "nat x = read_nat s" by simp
  with digits10_read_nat [OF ds] have "digits10 (nat x) = s" by simp
  with False show ?thesis
    by (simp add: format_PRId64_def)
qed

lemma canonical_format_PRIu64: "canonical_base10 (format_PRIu64 n) (int n)"
  using canonical_format_PRId64 [of "int n"]
  by (simp add: format_PRId64_def format_PRIu64_def)

lemma unat_ucast_16_64: "unat (ucast (x :: 16 word) :: 64 word) = unat x"
proof -
  have "uint (ucast x :: 64 word) = uint x"
    by (rule uint_up_ucast) (simp add: is_up)
  then show ?thesis
    unfolding unat_eq_nat_uint by (rule arg_cong)
qed


lemma unat_ucast_32_64: "unat (ucast (x :: 32 word) :: 64 word) = unat x"
proof -
  have "uint (ucast x :: 64 word) = uint x"
    by (rule uint_up_ucast) (simp add: is_up)
  then show ?thesis
    unfolding unat_eq_nat_uint by (rule arg_cong)
qed


lemma digits10_length_le: "0 < k \<Longrightarrow> n < 10 ^ k \<Longrightarrow> length (digits10 n) \<le> k"
proof (induction n arbitrary: k rule: digits10.induct)
  case (1 n)
  show ?case
  proof (cases "n < 10")
    case True
    with "1.prems" show ?thesis by (subst digits10.simps) simp
  next
    case False
    with "1.prems" obtain k' where k': "k = Suc k'" "0 < k'"
      by (cases k; cases "k - 1") auto
    with "1.prems" have "n div 10 < 10 ^ k'"
      by (simp add: less_mult_imp_div_less mult.commute)
    from "1.IH" [OF False k'(2) this] False k'(1) show ?thesis
      by (subst digits10.simps) simp
  qed
qed

lemma sint64_text_length: "length (format_PRId64 (sint (w :: 64 word))) \<le> 20"
proof -
  have ge: "- (2 ^ 63) \<le> sint w" and lt: "sint w < 2 ^ 63"
    using sint_ge [of w] sint_lt [of w] by simp_all
  have "nat \<bar>sint w\<bar> < 10 ^ 19"
    using ge lt by simp
  then have "length (digits10 (nat \<bar>sint w\<bar>)) \<le> 19"
    by (intro digits10_length_le) simp_all
  then show ?thesis
    by (auto simp: format_PRId64_def abs_if)
qed

lemma uint64_text_length: "length (format_PRIu64 (unat (w :: 64 word))) \<le> 20"
proof -
  have "unat w < 2 ^ 64"
    using unsigned_less [of w, where 'a = nat] by simp
  then have "unat w < 10 ^ 20"
    by simp
  then show ?thesis
    unfolding format_PRIu64_def by (intro digits10_length_le) simp_all
qed

lemma setInt64_signed: "setInt64 True w v = UniValue VNUM (format_PRId64 (sint w)) [] []"
proof -
  have "format_PRId64 (sint w) \<noteq> []"
    by (simp add: format_PRId64_def digits10_nonempty)
  then have "0 < length (format_PRId64 (sint w))" by simp
  with sint64_text_length [of w] show ?thesis
    by (simp add: setInt64_def snprintf_def bufSize_def setNull_eq set_typ_def set_val_def)
qed

lemma setInt64_unsigned: "setInt64 False w v = UniValue VNUM (format_PRIu64 (unat w)) [] []"
proof -
  have "format_PRIu64 (unat w) \<noteq> []"
    by (simp add: format_PRIu64_def digits10_nonempty)
  then have "0 < length (format_PRIu64 (unat w))" by simp
  with uint64_text_length [of w] show ?thesis
    by (simp add: setInt64_def snprintf_def bufSize_def setNull_eq set_typ_def set_val_def)
qed

lemma sint_scast_16_64: "sint (scast (x :: 16 word) :: 64 word) = sint x"
  by (rule sint_up_scast) (simp add: is_up)

lemma sint_scast_32_64: "sint (scast (x :: 32 word) :: 64 word) = sint x"
  by (rule sint_up_scast) (simp add: is_up)

lemma setInt_values:
  "setInt_short h v = UniValue VNUM (format_PRId64 (sint h)) [] []"
  "setInt_int i v = UniValue VNUM (format_PRId64 (sint i)) [] []"
  "setInt_long l v = UniValue VNUM (format_PRId64 (sint l)) [] []"
  "setInt_long_long ll v = UniValue VNUM (format_PRId64 (sint ll)) [] []"
  "setInt_unsigned_short uh v = UniValue VNUM (format_PRIu64 (unat uh)) [] []"
  "setInt_unsigned ui v = UniValue VNUM (format_PRIu64 (unat ui)) [] []"
  "setInt_unsigned_long ul v = UniValue VNUM (format_PRIu64 (unat ul)) [] []"
  "setInt_unsigned_long_long ull v = UniValue VNUM (format_PRIu64 (unat ull)) [] []"
  by (simp_all add: setInt_short_def setInt_int_def setInt_long_def setInt_long_long_def
      setInt_unsigned_short_def setInt_unsigned_def setInt_unsigned_long_def
      setInt_unsigned_long_long_def setInt64_signed setInt64_unsigned
      sint_scast_16_64 sint_scast_32_64 unat_ucast_16_64 unat_ucast_32_64)

text \<open>
  C4. For each of the eight integer types accepted by \<open>setInt\<close> and every value of
  the type, \<open>setInt\<close> sets the tag to \<open>VNUM\<close> and stores the canonical base-10 text of
  the value: a leading \<open>-\<close> exactly when the value is negative, digits only after it,
  no leading zero except for the single digit \<open>0\<close>, and reading the text back as an
  integer gives the value again. Signed arguments are read with \<open>sint\<close>, unsigned ones
  with \<open>uint\<close>. The check of \<open>snprintf\<close>'s result never fires: the text of a 64-bit
  value has between 1 and 20 characters. By \<open>canonical_base10_unique\<close> no other text is
  canonical for the value.
\<close>

theorem setInt_canonical_text:
  "typ' (setInt_short h v) = VNUM \<and>
   canonical_base10 (val' (setInt_short h v)) (sint h) \<and>
   typ' (setInt_int i v) = VNUM \<and>
   canonical_base10 (val' (setInt_int i v)) (sint i) \<and>
   typ' (setInt_long l v) = VNUM \<and>
   canonical_base10 (val' (setInt_long l v)) (sint l) \<and>
   typ' (setInt_long_long ll v) = VNUM \<and>
   canonical_base10 (val' (setInt_long_long ll v)) (sint ll) \<and>
   typ' (setInt_unsigned_short uh v) = VNUM \<and>
   canonical_base10 (val' (setInt_unsigned_short uh v)) (uint uh) \<and>
   typ' (setInt_unsigned ui v) = VNUM \<and>
   canonical_base10 (val' (setInt_unsigned ui v)) (uint ui) \<and>
   typ' (setInt_unsigned_long ul v) = VNUM \<and>
   canonical_base10 (val' (setInt_unsigned_long ul v)) (uint ul) \<and>
   typ' (setInt_unsigned_long_long ull v) = VNUM \<and>
   canonical_base10 (val' (setInt_unsigned_long_long ull v)) (uint ull)"
  using canonical_format_PRIu64 [of "unat uh"] canonical_format_PRIu64 [of "unat ui"]
    canonical_format_PRIu64 [of "unat ul"] canonical_format_PRIu64 [of "unat ull"]
  by (simp add: setInt_values canonical_format_PRId64)

theorem setInt_canonical_text_witness:
  "val' (setInt_int 0 (UniValue VSTR ''abc'' [] [])) = ''0'' \<and>
   canonical_base10 (val' (setInt_int 0 (UniValue VSTR ''abc'' [] []))) 0 \<and>
   val' (setInt_short (- 42) (UniValue VSTR ''abc'' [] [])) = ''-42'' \<and>
   canonical_base10 (val' (setInt_short (- 42) (UniValue VSTR ''abc'' [] []))) (- 42) \<and>
   val' (setInt_unsigned_long_long 18446744073709551615 (UniValue VSTR ''abc'' [] [])) =
     ''18446744073709551615'' \<and>
   canonical_base10
     (val' (setInt_unsigned_long_long 18446744073709551615 (UniValue VSTR ''abc'' [] [])))
     18446744073709551615"
proof -
  have d: "digits10 0 = ''0''" "digits10 42 = ''42''"
    "digits10 18446744073709551615 = ''18446744073709551615''"
    by (simp_all add: digits10.simps digit_char_def)
  have s: "sint (0 :: 32 word) = 0" "sint (- 42 :: 16 word) = - 42"
    "uint (18446744073709551615 :: 64 word) = 18446744073709551615"
    "unat (18446744073709551615 :: 64 word) = 18446744073709551615"
    by simp_all
  show ?thesis
    using setInt_canonical_text [of "- 42" "UniValue VSTR ''abc'' [] []" 0 0 0 0 0 0
        18446744073709551615]
    by (simp add: setInt_values s d format_PRId64_def format_PRIu64_def)
qed

section \<open>Setters\<close>

text \<open>
  The recogniser of JSON numbers accepts what the integer setters write, and \<open>setNumStr\<close>
  with the tokenizer of the spec stores a text that is a JSON number as it is.
\<close>

lemma takeWhile_digits10: "takeWhile is_digit (digits10 n) = digits10 n"
  by (simp add: takeWhile_eq_all_conv digits10_all_digits)

lemma dropWhile_digits10: "dropWhile is_digit (digits10 n) = []"
  by (simp add: dropWhile_eq_Nil_conv digits10_all_digits)

lemma json_int_part_digits10: "json_int_part (digits10 n)"
  using digits10_hd_zero [of n] digits10_zero
  by (auto simp: json_int_part_def digits10_nonempty)

lemma is_json_number_format_PRId64: "is_json_number (format_PRId64 x)"
  by (simp add: is_json_number_def format_PRId64_def Let_def skip_digits_def
      takeWhile_digits10 dropWhile_digits10 json_int_part_digits10 digits10_nonempty
      digits10_hd_not_minus digits10_all_digits)

lemma setNumStr_accepts_json_number:
  "is_json_number text \<Longrightarrow> setNumStr spec_getJsonToken text v = UniValue VNUM text [] []"
  by (simp add: setNumStr_def validNumStr_def spec_getJsonToken_def setNull_eq set_typ_def
      set_val_def)

lemma json_number_examples:
  "is_json_number ''0''" "is_json_number ''-12.5''" "is_json_number ''1.50''"
  "is_json_number ''1E+5''" "\<not> is_json_number ''012''" "\<not> is_json_number ''1.''"
  "\<not> is_json_number '' 1''" "\<not> is_json_number ''NaN''" "\<not> is_json_number []"
  by code_simp+

text \<open>
  C2. \<open>setNumStr\<close> with a text that is not a JSON number, and \<open>setFloat\<close> with a NaN or
  an infinity, return the value they were given: tag, text, object and array payloads
  are all the same. Neither function has a \<open>throw\<close>, so the model has no error result
  and returning is the only outcome. For \<open>setNumStr\<close> the first conjunct is about the
  tokenizer of the spec, which reports a number only for a text that is one complete
  JSON number; the second is what the code does with any tokenizer: the value is
  unchanged whenever the tokenizer reports another token type. The \<open>setFloat\<close> part
  holds for every way of formatting finite doubles.
\<close>

theorem invalid_number_leaves_value_unchanged:
  "(\<not> is_json_number text \<longrightarrow> setNumStr spec_getJsonToken text v = v) \<and>
   (getJsonToken text \<noteq> JTOK_NUMBER \<longrightarrow> setNumStr getJsonToken text v = v) \<and>
   (d = NaN \<or> d = PosInf \<or> d = NegInf \<longrightarrow> setFloat oss_str d v = v) \<and>
   (\<not> isfinite d \<longrightarrow> setFloat oss_str d v = v)"
  by (auto simp: setNumStr_def validNumStr_def setFloat_def spec_getJsonToken_def)

theorem invalid_number_leaves_value_unchanged_witness:
  "\<not> is_json_number ''not a number'' \<and>
   setNumStr spec_getJsonToken ''not a number'' (UniValue VSTR ''abc'' [] []) =
     UniValue VSTR ''abc'' [] [] \<and>
   \<not> is_json_number ''12abc'' \<and>
   setNumStr spec_getJsonToken ''12abc'' (UniValue VSTR ''abc'' [] []) =
     UniValue VSTR ''abc'' [] [] \<and>
   setFloat (\<lambda>d. ''1.5'') NaN (UniValue VSTR ''abc'' [] []) = UniValue VSTR ''abc'' [] [] \<and>
   setFloat (\<lambda>d. ''1.5'') PosInf (UniValue VARR [] [] [UniValue VTRUE [] [] []]) =
     UniValue VARR [] [] [UniValue VTRUE [] [] []] \<and>
   setFloat (\<lambda>d. ''1.5'') NegInf (UniValue VOBJ [] [(''k'', UniValue VNULL [] [] [])] []) =
     UniValue VOBJ [] [(''k'', UniValue VNULL [] [] [])] []"
proof -
  have n: "\<not> is_json_number ''not a number''" "\<not> is_json_number ''12abc''"
    by code_simp+
  have o: "spec_getJsonToken ''not a number'' \<noteq> JTOK_NUMBER"
    by (simp add: spec_getJsonToken_def n)
  show ?thesis
    using n o
      invalid_number_leaves_value_unchanged [of "''not a number''" "UniValue VSTR ''abc'' [] []"
        spec_getJsonToken NaN "\<lambda>d. ''1.5''"]
      invalid_number_leaves_value_unchanged [of "''12abc''" "UniValue VSTR ''abc'' [] []"
        spec_getJsonToken NaN "\<lambda>d. ''1.5''"]
      invalid_number_leaves_value_unchanged [of "''not a number''"
        "UniValue VARR [] [] [UniValue VTRUE [] [] []]" spec_getJsonToken PosInf "\<lambda>d. ''1.5''"]
      invalid_number_leaves_value_unchanged [of "''not a number''"
        "UniValue VOBJ [] [(''k'', UniValue VNULL [] [] [])] []" spec_getJsonToken NegInf
        "\<lambda>d. ''1.5''"]
    by simp
qed

text \<open>
  C3. After \<open>setNull\<close> the tag is \<open>VNULL\<close>, the text payload is empty and the object and
  the array payloads have length 0. Every other setter resets the value in the same way
  before it stores the new tag and payload, so its result is the same whatever the value
  held before: nothing of the old payload is left. (\<open>setNumStr\<close> and \<open>setFloat\<close> return
  the old value as it was when they reject their argument.)
\<close>

theorem setNull_clears_everything:
  "typ' (setNull v) = VNULL \<and> val' (setNull v) = [] \<and>
   length (entries' (setNull v)) = 0 \<and> length (values' (setNull v)) = 0 \<and>
   active_size (setNull v) = 0 \<and>
   setBool b v = UniValue (if b then VTRUE else VFALSE) [] [] [] \<and>
   setObject v = UniValue VOBJ [] [] [] \<and>
   setObject_from object v = UniValue VOBJ [] object [] \<and>
   setArray v = UniValue VARR [] [] [] \<and>
   setArray_from array v = UniValue VARR [] [] array \<and>
   setStr text v = UniValue VSTR text [] [] \<and>
   setNumStr getJsonToken text v =
     (if getJsonToken text = JTOK_NUMBER then UniValue VNUM text [] [] else v) \<and>
   setInt64 True w v = UniValue VNUM (format_PRId64 (sint w)) [] [] \<and>
   setInt64 False w v = UniValue VNUM (format_PRIu64 (unat w)) [] [] \<and>
   setFloat oss_str d v = (if isfinite d then UniValue VNUM (oss_str d) [] [] else v)"
  by (simp add: setNull_eq active_size_def setBool_def setObject_def setObject_from_def
      setArray_def setArray_from_def setStr_def setNumStr_def validNumStr_def setFloat_def
      set_typ_def set_val_def set_entries_def set_values_def setInt64_signed setInt64_unsigned)

section \<open>Throwing accessors\<close>

text \<open>
  C6. \<open>Object::at\<close> with a key that no pair has throws \<open>std::out_of_range\<close> with a
  message that ends with the key. \<open>Object::at\<close> and \<open>Array::at\<close> with an index that is
  not below the size throw \<open>std::out_of_range\<close> with a message that contains the decimal
  text of the index and the decimal text of the size.
\<close>

theorem container_at_out_of_range:
  "(key \<notin> fst ` set object \<longrightarrow>
      Object_at_key object key =
        Inl (out_of_range (''Key not found in JSON object: '' @ key)) \<and>
      sublist key (''Key not found in JSON object: '' @ key)) \<and>
   (length object \<le> index \<longrightarrow>
      (\<exists>msg. Object_at_index object index = Inl (out_of_range msg) \<and>
             msg = ''Index '' @ to_string index @ '' out of range in JSON object of length '' @
                   to_string (length object) \<and>
             sublist (to_string index) msg \<and> sublist (to_string (length object)) msg)) \<and>
   (length array \<le> index \<longrightarrow>
      (\<exists>msg. Array_at_index array index = Inl (out_of_range msg) \<and>
             msg = ''Index '' @ to_string index @ '' out of range in JSON array of length '' @
                   to_string (length array) \<and>
             sublist (to_string index) msg \<and> sublist (to_string (length array)) msg))"
proof (intro conjI impI)
  assume "key \<notin> fst ` set object"
  then have "Object_locate object key = None"
    by (simp add: Object_locate_None)
  then show "Object_at_key object key =
      Inl (out_of_range (''Key not found in JSON object: '' @ key))"
    by (simp add: Object_at_key_def)
  show "sublist key (''Key not found in JSON object: '' @ key)"
    by (rule sublist_append_leftI)
next
  assume out: "length object \<le> index"
  let ?msg = "''Index '' @ to_string index @ '' out of range in JSON object of length '' @
                to_string (length object)"
  have "Object_at_index object index = Inl (out_of_range ?msg)"
    using out by (simp add: Object_at_index_def)
  moreover have "sublist (to_string index) ?msg"
    by (rule sublist_appendI)
  moreover have "sublist (to_string (length object)) ?msg"
    unfolding append_assoc [symmetric] by (rule sublist_append_leftI)
  ultimately show "\<exists>msg. Object_at_index object index = Inl (out_of_range msg) \<and>
      msg = ?msg \<and> sublist (to_string index) msg \<and> sublist (to_string (length object)) msg"
    by blast
next
  assume out: "length array \<le> index"
  let ?msg = "''Index '' @ to_string index @ '' out of range in JSON array of length '' @
                to_string (length array)"
  have "Array_at_index array index = Inl (out_of_range ?msg)"
    using out by (simp add: Array_at_index_def)
  moreover have "sublist (to_string index) ?msg"
    by (rule sublist_appendI)
  moreover have "sublist (to_string (length array)) ?msg"
    unfolding append_assoc [symmetric] by (rule sublist_append_leftI)
  ultimately show "\<exists>msg. Array_at_index array index = Inl (out_of_range msg) \<and>
      msg = ?msg \<and> sublist (to_string index) msg \<and> sublist (to_string (length array)) msg"
    by blast
qed

theorem container_at_out_of_range_witness:
  "Object_at_key [(''a'', UniValue VTRUE [] [] [])] ''missing'' =
     Inl (out_of_range ''Key not found in JSON object: missing'') \<and>
   Array_at_index [UniValue VTRUE [] [] [], UniValue VFALSE [] [] []] 5 =
     Inl (out_of_range ''Index 5 out of range in JSON array of length 2'') \<and>
   Object_at_index [(''a'', UniValue VTRUE [] [] [])] 5 =
     Inl (out_of_range ''Index 5 out of range in JSON object of length 1'')"
proof -
  have d: "to_string 5 = ''5''" "to_string 2 = ''2''" "to_string 1 = ''1''"
    "to_string (Suc 0) = ''1''" "to_string (Suc (Suc 0)) = ''2''"
    by (simp_all add: to_string_def digits10.simps digit_char_def)
  show ?thesis
    using container_at_out_of_range [of "''missing''" "[(''a'', UniValue VTRUE [] [] [])]" 5
        "[UniValue VTRUE [] [] [], UniValue VFALSE [] [] []]"]
    by (simp add: d)
qed

text \<open>
  C7. \<open>UniValue::at\<close> by key on a value whose tag is not \<open>VOBJ\<close>, and by index on a
  value whose tag is neither \<open>VOBJ\<close> nor \<open>VARR\<close>, throws \<open>std::domain_error\<close> with a
  message that contains the name of the value's tag. With a tag that supports the access
  the result is the container's: \<open>std::out_of_range\<close> for a key no pair has or an index
  not below the size, and otherwise a reference to the first pair with the key, or to
  the element at the index.
\<close>

theorem UniValue_at_errors:
  "(typ' v \<noteq> VOBJ \<longrightarrow>
      (\<exists>msg. UniValue_at_key v key = Inl (domain_error msg) \<and>
             msg = ''Cannot look up keys in JSON '' @ uvTypeName (typ' v) @
                   '', expected object with key: '' @ key \<and>
             sublist (uvTypeName (typ' v)) msg)) \<and>
   (typ' v \<noteq> VOBJ \<and> typ' v \<noteq> VARR \<longrightarrow>
      (\<exists>msg. UniValue_at_index v index = Inl (domain_error msg) \<and>
             msg = ''Cannot look up indices in JSON '' @ uvTypeName (typ' v) @
                   '', expected array or object larger than '' @ to_string index @
                   '' elements'' \<and>
             sublist (uvTypeName (typ' v)) msg)) \<and>
   (typ' v = VOBJ \<longrightarrow>
      UniValue_at_key v key = Object_at_key (entries' v) key \<and>
      UniValue_at_index v index = Object_at_index (entries' v) index \<and>
      (key \<notin> fst ` set (entries' v) \<longrightarrow>
         (\<exists>msg. UniValue_at_key v key = Inl (out_of_range msg))) \<and>
      (key \<in> fst ` set (entries' v) \<longrightarrow>
         (\<exists>i. UniValue_at_key v key = Inr (RefEntry i) \<and> i < length (entries' v) \<and>
              fst (entries' v ! i) = key \<and> (\<forall>j<i. fst (entries' v ! j) \<noteq> key))) \<and>
      (length (entries' v) \<le> index \<longrightarrow>
         (\<exists>msg. UniValue_at_index v index = Inl (out_of_range msg))) \<and>
      (index < length (entries' v) \<longrightarrow> UniValue_at_index v index = Inr (RefEntry index))) \<and>
   (typ' v = VARR \<longrightarrow>
      UniValue_at_index v index = Array_at_index (values' v) index \<and>
      (length (values' v) \<le> index \<longrightarrow>
         (\<exists>msg. UniValue_at_index v index = Inl (out_of_range msg))) \<and>
      (index < length (values' v) \<longrightarrow> UniValue_at_index v index = Inr (RefValue index)))"
proof (intro conjI impI)
  assume t: "typ' v \<noteq> VOBJ"
  let ?msg = "''Cannot look up keys in JSON '' @ uvTypeName (typ' v) @
                '', expected object with key: '' @ key"
  have "UniValue_at_key v key = Inl (domain_error ?msg)"
    using t by (simp add: UniValue_at_key_def)
  moreover have "sublist (uvTypeName (typ' v)) ?msg"
    by (rule sublist_appendI)
  ultimately show "\<exists>msg. UniValue_at_key v key = Inl (domain_error msg) \<and> msg = ?msg \<and>
      sublist (uvTypeName (typ' v)) msg"
    by blast
next
  assume t: "typ' v \<noteq> VOBJ \<and> typ' v \<noteq> VARR"
  let ?msg = "''Cannot look up indices in JSON '' @ uvTypeName (typ' v) @
                '', expected array or object larger than '' @ to_string index @ '' elements''"
  have "UniValue_at_index v index = Inl (domain_error ?msg)"
    using t by (cases "typ' v") (simp_all add: UniValue_at_index_def)
  moreover have "sublist (uvTypeName (typ' v)) ?msg"
    by (rule sublist_appendI)
  ultimately show "\<exists>msg. UniValue_at_index v index = Inl (domain_error msg) \<and> msg = ?msg \<and>
      sublist (uvTypeName (typ' v)) msg"
    by blast
next
  assume t: "typ' v = VOBJ"
  show k: "UniValue_at_key v key = Object_at_key (entries' v) key"
    using t by (simp add: UniValue_at_key_def)
  show i: "UniValue_at_index v index = Object_at_index (entries' v) index"
    using t by (simp add: UniValue_at_index_def)
  {
    assume "key \<notin> fst ` set (entries' v)"
    then have "Object_locate (entries' v) key = None"
      by (simp add: Object_locate_None)
    then show "\<exists>msg. UniValue_at_key v key = Inl (out_of_range msg)"
      by (simp add: k Object_at_key_def)
  }
  {
    assume "key \<in> fst ` set (entries' v)"
    then have "Object_locate (entries' v) key \<noteq> None"
      by (simp add: Object_locate_None)
    then obtain i where i: "Object_locate (entries' v) key = Some i"
      by auto
    with Object_locate_Some [OF i]
    show "\<exists>i. UniValue_at_key v key = Inr (RefEntry i) \<and> i < length (entries' v) \<and>
              fst (entries' v ! i) = key \<and> (\<forall>j<i. fst (entries' v ! j) \<noteq> key)"
      by (simp add: k Object_at_key_def)
  }
  {
    assume "length (entries' v) \<le> index"
    then show "\<exists>msg. UniValue_at_index v index = Inl (out_of_range msg)"
      by (simp add: i Object_at_index_def)
  }
  {
    assume "index < length (entries' v)"
    then show "UniValue_at_index v index = Inr (RefEntry index)"
      by (simp add: i Object_at_index_def)
  }
next
  assume t: "typ' v = VARR"
  show i: "UniValue_at_index v index = Array_at_index (values' v) index"
    using t by (simp add: UniValue_at_index_def)
  {
    assume "length (values' v) \<le> index"
    then show "\<exists>msg. UniValue_at_index v index = Inl (out_of_range msg)"
      by (simp add: i Array_at_index_def)
  }
  {
    assume "index < length (values' v)"
    then show "UniValue_at_index v index = Inr (RefValue index)"
      by (simp add: i Array_at_index_def)
  }
qed

theorem UniValue_at_errors_witness:
  "UniValue_at_key (UniValue VNUM ''1'' [] []) ''k'' =
     Inl (domain_error ''Cannot look up keys in JSON number, expected object with key: k'') \<and>
   UniValue_at_index (UniValue VSTR ''abc'' [] []) 5 =
     Inl (domain_error
       ''Cannot look up indices in JSON string, expected array or object larger than 5 elements'') \<and>
   UniValue_at_key (UniValue VARR [] [] [UniValue VTRUE [] [] []]) ''k'' =
     Inl (domain_error ''Cannot look up keys in JSON array, expected object with key: k'') \<and>
   UniValue_at_key (UniValue VOBJ [] [(''a'', UniValue VTRUE [] [] [])] []) ''a'' =
     Inr (RefEntry 0) \<and>
   UniValue_at_key (UniValue VOBJ [] [(''a'', UniValue VTRUE [] [] [])] []) ''missing'' =
     Inl (out_of_range ''Key not found in JSON object: missing'') \<and>
   UniValue_at_index (UniValue VOBJ [] [(''a'', UniValue VTRUE [] [] [])] []) 0 =
     Inr (RefEntry 0) \<and>
   UniValue_at_index (UniValue VOBJ [] [(''a'', UniValue VTRUE [] [] [])] []) 5 =
     Inl (out_of_range ''Index 5 out of range in JSON object of length 1'') \<and>
   UniValue_at_index (UniValue VARR [] [] [UniValue VTRUE [] [] []]) 0 = Inr (RefValue 0) \<and>
   UniValue_at_index (UniValue VARR [] [] [UniValue VTRUE [] [] []]) 5 =
     Inl (out_of_range ''Index 5 out of range in JSON array of length 1'')"
proof -
  have d: "to_string 5 = ''5''" "to_string (Suc 0) = ''1''"
    by (simp_all add: to_string_def digits10.simps digit_char_def)
  show ?thesis
    using UniValue_at_errors [of "UniValue VNUM ''1'' [] []" "''k''" 5]
      UniValue_at_errors [of "UniValue VSTR ''abc'' [] []" "''k''" 5]
      UniValue_at_errors [of "UniValue VARR [] [] [UniValue VTRUE [] [] []]" "''k''" 0]
      UniValue_at_errors [of "UniValue VARR [] [] [UniValue VTRUE [] [] []]" "''k''" 5]
      UniValue_at_errors [of "UniValue VOBJ [] [(''a'', UniValue VTRUE [] [] [])] []" "''a''" 0]
      UniValue_at_errors [of "UniValue VOBJ [] [(''a'', UniValue VTRUE [] [] [])] []"
        "''missing''" 5]
    by (simp add: d Object_at_key_def Object_at_index_def Array_at_index_def)
qed

section \<open>The class invariant\<close>

text \<open>
  The default-constructed value and the result of every setter that resets the value
  are consistent; the setters that may return their value unchanged keep it consistent.
\<close>

lemma consistent_established:
  "consistent NullUniValue" "consistent (setNull v)" "consistent (setBool b v)"
  "consistent (setObject v)" "consistent (setObject_from object v)"
  "consistent (setArray v)" "consistent (setArray_from array v)"
  "consistent (setStr text v)"
  by (simp_all add: consistent_def NullUniValue_def setNull_eq setBool_def setObject_def
      setObject_from_def setArray_def setArray_from_def setStr_def
      set_typ_def set_val_def set_entries_def set_values_def)

lemma consistent_preserved:
  assumes "consistent v"
  shows "consistent (setNumStr getJsonToken text v)" "consistent (setInt64 is_signed w v)"
    "consistent (setFloat oss_str d v)"
proof -
  show "consistent (setNumStr getJsonToken text v)"
    using assms
    by (simp add: setNumStr_def consistent_def setNull_eq set_typ_def set_val_def)
  show "consistent (setInt64 is_signed w v)"
    by (cases is_signed) (simp_all add: setInt64_signed setInt64_unsigned consistent_def)
  show "consistent (setFloat oss_str d v)"
    using assms
    by (simp add: setFloat_def consistent_def setNull_eq set_typ_def set_val_def)
qed

section \<open>Non-throwing accessors\<close>

text \<open>
  C8. The non-throwing accessors have no error result, and the reference they return
  is the sentinel or a position that exists in the payload. \<open>operator[]\<close> by index
  returns \<open>NullUniValue\<close> when the tag is neither \<open>VOBJ\<close> nor \<open>VARR\<close> or the index is
  not below the size of the active container; \<open>front\<close> and \<open>back\<close> return it when the
  tag is neither or the active container is empty. \<open>operator[]\<close> by key searches
  \<open>entries\<close> without looking at the tag; for a consistent value, whose \<open>entries\<close> are
  empty unless the tag is \<open>VOBJ\<close>, it returns \<open>NullUniValue\<close> when the tag is not
  \<open>VOBJ\<close> or no pair has the key.
\<close>

theorem nonthrowing_accessors:
  "(consistent v \<and> (typ' v \<noteq> VOBJ \<or> key \<notin> fst ` set (entries' v)) \<longrightarrow>
      UniValue_subscript_key v key = RefNullUniValue) \<and>
   ((typ' v \<noteq> VOBJ \<and> typ' v \<noteq> VARR) \<or> active_size v \<le> index \<longrightarrow>
      UniValue_subscript_index v index = RefNullUniValue) \<and>
   ((typ' v \<noteq> VOBJ \<and> typ' v \<noteq> VARR) \<or> active_size v = 0 \<longrightarrow>
      UniValue_front v = RefNullUniValue \<and> UniValue_back v = RefNullUniValue) \<and>
   valid_ref v (UniValue_subscript_key v key) \<and>
   valid_ref v (UniValue_subscript_index v index) \<and>
   valid_ref v (UniValue_front v) \<and>
   valid_ref v (UniValue_back v)"
proof (intro conjI impI)
  assume a: "consistent v \<and> (typ' v \<noteq> VOBJ \<or> key \<notin> fst ` set (entries' v))"
  then have "key \<notin> fst ` set (entries' v)"
    by (auto simp: consistent_def)
  then have "Object_locate (entries' v) key = None"
    by (simp add: Object_locate_None)
  then show "UniValue_subscript_key v key = RefNullUniValue"
    by (simp add: UniValue_subscript_key_def UniValue_locate_def)
next
  assume "(typ' v \<noteq> VOBJ \<and> typ' v \<noteq> VARR) \<or> active_size v \<le> index"
  then show "UniValue_subscript_index v index = RefNullUniValue"
    by (cases "typ' v")
      (auto simp: UniValue_subscript_index_def active_size_def Object_subscript_index_def
        Array_subscript_index_def)
next
  assume a: "(typ' v \<noteq> VOBJ \<and> typ' v \<noteq> VARR) \<or> active_size v = 0"
  then show "UniValue_front v = RefNullUniValue"
    by (cases "typ' v")
      (auto simp: UniValue_front_def active_size_def Object_front_def Array_front_def)
  from a show "UniValue_back v = RefNullUniValue"
    by (cases "typ' v")
      (auto simp: UniValue_back_def active_size_def Object_back_def Array_back_def)
next
  show "valid_ref v (UniValue_subscript_key v key)"
  proof (cases "Object_locate (entries' v) key")
    case None
    then show ?thesis
      by (simp add: UniValue_subscript_key_def UniValue_locate_def valid_ref_def)
  next
    case (Some i)
    with Object_locate_Some [OF Some] show ?thesis
      by (simp add: UniValue_subscript_key_def UniValue_locate_def valid_ref_def)
  qed
next
  show "valid_ref v (UniValue_subscript_index v index)"
    by (cases "typ' v")
      (simp_all add: UniValue_subscript_index_def Object_subscript_index_def
        Array_subscript_index_def valid_ref_def)
next
  show "valid_ref v (UniValue_front v)"
    by (cases "typ' v")
      (simp_all add: UniValue_front_def Object_front_def Array_front_def valid_ref_def)
next
  show "valid_ref v (UniValue_back v)"
    by (cases "typ' v")
      (simp_all add: UniValue_back_def Object_back_def Array_back_def valid_ref_def)
qed

theorem nonthrowing_accessors_witness:
  "consistent (UniValue VSTR ''abc'' [] []) \<and>
   UniValue_subscript_key (UniValue VSTR ''abc'' [] []) ''k'' = RefNullUniValue \<and>
   UniValue_subscript_index (UniValue VSTR ''abc'' [] []) 0 = RefNullUniValue \<and>
   UniValue_front (UniValue VSTR ''abc'' [] []) = RefNullUniValue \<and>
   UniValue_back (UniValue VSTR ''abc'' [] []) = RefNullUniValue \<and>
   consistent (UniValue VOBJ [] [(''a'', UniValue VTRUE [] [] [])] []) \<and>
   UniValue_subscript_key (UniValue VOBJ [] [(''a'', UniValue VTRUE [] [] [])] []) ''missing'' =
     RefNullUniValue \<and>
   UniValue_subscript_index (UniValue VOBJ [] [(''a'', UniValue VTRUE [] [] [])] []) 99 =
     RefNullUniValue \<and>
   UniValue_subscript_index (UniValue VARR [] [] [UniValue VTRUE [] [] []]) 99 =
     RefNullUniValue \<and>
   UniValue_front (UniValue VARR [] [] []) = RefNullUniValue \<and>
   UniValue_back (UniValue VOBJ [] [] []) = RefNullUniValue"
  using nonthrowing_accessors [of "UniValue VSTR ''abc'' [] []" "''k''" 0]
    nonthrowing_accessors [of "UniValue VOBJ [] [(''a'', UniValue VTRUE [] [] [])] []"
      "''missing''" 99]
    nonthrowing_accessors [of "UniValue VARR [] [] [UniValue VTRUE [] [] []]" "''k''" 99]
    nonthrowing_accessors [of "UniValue VARR [] [] []" "''k''" 0]
    nonthrowing_accessors [of "UniValue VOBJ [] [] []" "''k''" 0]
  by (simp add: consistent_def active_size_def)

text \<open>
  C10. For a value whose tag is \<open>VOBJ\<close> or \<open>VARR\<close> and an index below the size of the
  active container, \<open>at\<close> returns normally and returns the reference \<open>operator[]\<close>
  returns: the element at that index of the active container, not the sentinel.
\<close>

theorem at_agrees_with_subscript:
  "(typ' v = VOBJ \<or> typ' v = VARR) \<and> index < active_size v \<longrightarrow>
     UniValue_at_index v index = Inr (UniValue_subscript_index v index) \<and>
     UniValue_subscript_index v index \<noteq> RefNullUniValue \<and>
     valid_ref v (UniValue_subscript_index v index) \<and>
     deref v (UniValue_subscript_index v index) =
       (if typ' v = VOBJ then snd (entries' v ! index) else values' v ! index)"
  by (auto simp: UniValue_at_index_def UniValue_subscript_index_def active_size_def
      Object_at_index_def Object_subscript_index_def Array_at_index_def
      Array_subscript_index_def valid_ref_def deref_def)


theorem at_agrees_with_subscript_witness:
  "UniValue_at_index (UniValue VARR [] [] [UniValue VTRUE [] [] [], UniValue VFALSE [] [] []]) 1 =
     Inr (RefValue 1) \<and>
   UniValue_subscript_index
     (UniValue VARR [] [] [UniValue VTRUE [] [] [], UniValue VFALSE [] [] []]) 1 = RefValue 1 \<and>
   UniValue_at_index (UniValue VOBJ [] [(''a'', UniValue VTRUE [] [] [])] []) 0 =
     Inr (RefEntry 0) \<and>
   UniValue_subscript_index (UniValue VOBJ [] [(''a'', UniValue VTRUE [] [] [])] []) 0 =
     RefEntry 0"
  using at_agrees_with_subscript
      [of "UniValue VARR [] [] [UniValue VTRUE [] [] [], UniValue VFALSE [] [] []]" 1]
    at_agrees_with_subscript [of "UniValue VOBJ [] [(''a'', UniValue VTRUE [] [] [])] []" 0]
  by (simp add: active_size_def UniValue_subscript_index_def Object_subscript_index_def
      Array_subscript_index_def)

section \<open>Equality\<close>

lemma Object_eq_nth:
  "Object_eq ps qs =
     (length ps = length qs \<and>
      (\<forall>i<length ps. fst (ps ! i) = fst (qs ! i) \<and> UniValue_eq (snd (ps ! i)) (snd (qs ! i))))"
proof (induction ps arbitrary: qs)
  case Nil
  then show ?case by (cases qs) simp_all
next
  case (Cons p ps)
  show ?case
  proof (cases qs)
    case Nil
    then show ?thesis by simp
  next
    case (Cons q qs')
    with Cons.IH [of qs'] show ?thesis
      by (auto simp: All_less_Suc2)
  qed
qed

lemma Array_eq_nth:
  "Array_eq xs ys =
     (length xs = length ys \<and> (\<forall>i<length xs. UniValue_eq (xs ! i) (ys ! i)))"
proof (induction xs arbitrary: ys)
  case Nil
  then show ?case by (cases ys) simp_all
next
  case (Cons x xs)
  show ?case
  proof (cases ys)
    case Nil
    then show ?thesis by simp
  next
    case (Cons y ys')
    with Cons.IH [of ys'] show ?thesis
      by (auto simp: All_less_Suc2)
  qed
qed

lemma UniValue_eq_unfold:
  "UniValue_eq a b =
     (typ' a = typ' b \<and>
      (case typ' a of
         VOBJ \<Rightarrow> Object_eq (entries' a) (entries' b)
       | VARR \<Rightarrow> Array_eq (values' a) (values' b)
       | VNUM \<Rightarrow> val' a = val' b
       | VSTR \<Rightarrow> val' a = val' b
       | _ \<Rightarrow> True))"
  by (cases a; cases "typ' a") auto

text \<open>
  C5. \<open>a == b\<close> holds iff the tags are equal and, for \<open>VNUM\<close> and \<open>VSTR\<close>, the texts
  are the same character by character (no numeric normalisation: the numbers \<open>1.50\<close>
  and \<open>1.5\<close> differ); for \<open>VOBJ\<close>, the two pair sequences have the same length and, at
  each position, equal keys and equal values; for \<open>VARR\<close>, the two element sequences have
  the same length and equal elements at each position. For \<open>VNULL\<close>, \<open>VTRUE\<close> and
  \<open>VFALSE\<close> the tag decides alone, and values with different tags are never equal.
\<close>

theorem UniValue_eq_iff:
  "UniValue_eq a b =
     (typ' a = typ' b \<and>
      (typ' a = VNUM \<or> typ' a = VSTR \<longrightarrow> val' a = val' b) \<and>
      (typ' a = VOBJ \<longrightarrow>
         length (entries' a) = length (entries' b) \<and>
         (\<forall>i<length (entries' a).
            fst (entries' a ! i) = fst (entries' b ! i) \<and>
            UniValue_eq (snd (entries' a ! i)) (snd (entries' b ! i)))) \<and>
      (typ' a = VARR \<longrightarrow>
         length (values' a) = length (values' b) \<and>
         (\<forall>i<length (values' a). UniValue_eq (values' a ! i) (values' b ! i))))"
  unfolding UniValue_eq_unfold [of a b] Object_eq_nth Array_eq_nth
  by (cases "typ' a") simp_all

theorem UniValue_eq_iff_witness:
  "\<not> UniValue_eq (UniValue VNUM ''1.50'' [] []) (UniValue VNUM ''1.5'' [] []) \<and>
   UniValue_eq (UniValue VSTR ''abc'' [] []) (UniValue VSTR ''abc'' [] []) \<and>
   \<not> UniValue_eq (UniValue VSTR ''1'' [] []) (UniValue VNUM ''1'' [] []) \<and>
   UniValue_eq (UniValue VTRUE [] [] []) (UniValue VTRUE [] [] []) \<and>
   \<not> UniValue_eq (UniValue VTRUE [] [] []) (UniValue VFALSE [] [] []) \<and>
   UniValue_eq (UniValue VOBJ [] [(''a'', UniValue VNUM ''1'' [] []), (''b'', UniValue VNUM ''2'' [] [])] [])
     (UniValue VOBJ [] [(''a'', UniValue VNUM ''1'' [] []), (''b'', UniValue VNUM ''2'' [] [])] []) \<and>
   \<not> UniValue_eq (UniValue VOBJ [] [(''a'', UniValue VNUM ''1'' [] []), (''b'', UniValue VNUM ''2'' [] [])] [])
     (UniValue VOBJ [] [(''b'', UniValue VNUM ''2'' [] []), (''a'', UniValue VNUM ''1'' [] [])] []) \<and>
   \<not> UniValue_eq (UniValue VARR [] [] [UniValue VTRUE [] [] [], UniValue VFALSE [] [] []])
     (UniValue VARR [] [] [UniValue VFALSE [] [] [], UniValue VTRUE [] [] []])"
  using UniValue_eq_iff [of "UniValue VNUM ''1.50'' [] []" "UniValue VNUM ''1.5'' [] []"]
    UniValue_eq_iff [of "UniValue VSTR ''abc'' [] []" "UniValue VSTR ''abc'' [] []"]
    UniValue_eq_iff [of "UniValue VOBJ [] [(''a'', UniValue VNUM ''1'' [] []), (''b'', UniValue VNUM ''2'' [] [])] []"
      "UniValue VOBJ [] [(''b'', UniValue VNUM ''2'' [] []), (''a'', UniValue VNUM ''1'' [] [])] []"]
    UniValue_eq_iff [of "UniValue VARR [] [] [UniValue VTRUE [] [] [], UniValue VFALSE [] [] []]"
      "UniValue VARR [] [] [UniValue VFALSE [] [] [], UniValue VTRUE [] [] []]"]
  by simp

section \<open>Names of a set of tags\<close>

lemma uvTypeName_nonempty: "uvTypeName ty \<noteq> []"
  by (cases ty) simp_all

lemma slash_join_Cons:
  "slash_join (name # names) = (if names = [] then name else name @ ''/'' @ slash_join names)"
  by (cases names) simp_all

lemma append_names_foldl:
  "foldl (\<lambda>result ty. appendTypeNameIfTypeIncludes t ty result) result tys =
     (let names = map uvTypeName (filter (\<lambda>ty. t AND VType_bits ty \<noteq> 0) tys)
      in if names = [] then result
         else if result = [] then slash_join names
         else result @ ''/'' @ slash_join names)"
proof (induction tys arbitrary: result)
  case Nil
  show ?case by simp
next
  case (Cons ty tys)
  show ?case
  proof (cases "t AND VType_bits ty \<noteq> 0")
    case False
    with Cons.IH [of result] show ?thesis
      by (simp add: appendTypeNameIfTypeIncludes_def)
  next
    case True
    let ?r = "if result \<noteq> [] then result @ ''/'' @ uvTypeName ty else uvTypeName ty"
    have step: "appendTypeNameIfTypeIncludes t ty result = ?r"
      using True by (simp add: appendTypeNameIfTypeIncludes_def)
    have ne: "?r \<noteq> []"
      by (simp add: uvTypeName_nonempty)
    show ?thesis
      using True Cons.IH [of ?r] ne
      by (simp add: step Let_def slash_join_Cons uvTypeName_nonempty)
  qed
qed

text \<open>
  C9. For every bitmask \<open>t\<close>, \<open>uvTypeName(int)\<close> returns the names of the tags whose bit
  is set in \<open>t\<close>, in the canonical order Null, False, True, Object, Array, Number,
  String, joined by \<open>/\<close>. The mask of Object and Array gives \<open>object/array\<close>, the mask
  with no bit set the empty string.
\<close>

theorem uvTypeName_int_joins_names:
  "uvTypeName_int t =
     slash_join (map uvTypeName (filter (\<lambda>ty. t AND VType_bits ty \<noteq> 0) canonical_order)) \<and>
   uvTypeName_int (VType_bits VOBJ OR VType_bits VARR) = ''object/array'' \<and>
   uvTypeName_int 0 = []"
proof (intro conjI)
  have "uvTypeName_int t =
      foldl (\<lambda>result ty. appendTypeNameIfTypeIncludes t ty result) [] canonical_order"
    by (simp add: uvTypeName_int_def canonical_order_def)
  then show "uvTypeName_int t =
     slash_join (map uvTypeName (filter (\<lambda>ty. t AND VType_bits ty \<noteq> 0) canonical_order))"
    by (simp add: append_names_foldl Let_def)
  show "uvTypeName_int (VType_bits VOBJ OR VType_bits VARR) = ''object/array''"
    by code_simp
  show "uvTypeName_int 0 = []"
    by code_simp
qed

end
